theory Spec2Isabelle
  imports Complex_Main
begin

section \<open>Text, exceptions and the Python string primitives used by the translator\<close>

text \<open>
  A Python \<open>str\<close> is a sequence of Unicode code points, and \<open>len\<close> counts code points.
  A code point is a natural number and a text is a list of them; \<open>str_of\<close> turns an ASCII
  literal into such a list.
\<close>

type_synonym cp = nat
type_synonym str = "cp list"

definition str_of :: "string \<Rightarrow> str" where
  "str_of s = map of_char s"

text \<open>
  A raised exception is its class name together with \<open>str(e)\<close>. A function that may raise
  returns \<open>exn + 'a\<close>, with \<open>Inl\<close> for the exception.
\<close>

datatype exn = Exn (exn_class: string) (exn_str: str)

text \<open>
  Every handler of the repository is \<open>except Exception\<close>. The built-in classes below derive
  from \<open>BaseException\<close> only, so such a handler lets them pass; a class of any other name
  is taken to derive from \<open>Exception\<close>, as the classes of libraries and users do.
\<close>

definition base_exception_only :: "string list" where
  "base_exception_only =
     [''BaseException'', ''BaseExceptionGroup'', ''GeneratorExit'', ''KeyboardInterrupt'',
      ''SystemExit'', ''CancelledError'']"

definition is_Exception :: "exn \<Rightarrow> bool" where
  "is_Exception e \<longleftrightarrow> exn_class e \<notin> set base_exception_only"

text \<open>\<open>str.isspace\<close> on one code point; \<open>str.strip()\<close> and the regular expression class
  \<open>\s\<close> on a \<open>str\<close> pattern use the same set.\<close>

definition isspace :: "cp \<Rightarrow> bool" where
  "isspace c \<longleftrightarrow>
     (9 \<le> c \<and> c \<le> 13) \<or> (28 \<le> c \<and> c \<le> 32) \<or> c = 133 \<or> c = 160 \<or> c = 5760 \<or>
     (8192 \<le> c \<and> c \<le> 8202) \<or> c = 8232 \<or> c = 8233 \<or> c = 8239 \<or> c = 8287 \<or> c = 12288"

text \<open>The line boundaries of \<open>str.splitlines\<close>.\<close>

definition is_linebreak :: "cp \<Rightarrow> bool" where
  "is_linebreak c \<longleftrightarrow>
     (10 \<le> c \<and> c \<le> 13) \<or> (28 \<le> c \<and> c \<le> 30) \<or> c = 133 \<or> c = 8232 \<or> c = 8233"

text \<open>The character class of the look-behind in \<open>_chunk_text\<close>: full stop, exclamation
  mark, question mark, horizontal ellipsis, ideographic full stop, full-width exclamation
  mark and full-width question mark.\<close>

definition is_terminator :: "cp \<Rightarrow> bool" where
  "is_terminator c \<longleftrightarrow>
     c = 46 \<or> c = 33 \<or> c = 63 \<or> c = 8230 \<or> c = 12290 \<or> c = 65281 \<or> c = 65311"

text \<open>\<open>text.strip()\<close>.\<close>

definition strip :: "str \<Rightarrow> str" where
  "strip s = rev (dropWhile isspace (rev (dropWhile isspace s)))"

text \<open>\<open>s.endswith("\n")\<close>.\<close>

definition endswith_nl :: "str \<Rightarrow> bool" where
  "endswith_nl s \<longleftrightarrow> s \<noteq> [] \<and> last s = 10"

text \<open>\<open>text.splitlines(keepends=True)\<close>: a line ends after a line boundary, a carriage
  return followed by a line feed is one boundary, and a remainder without a boundary is a
  line too. The first argument is the line read so far.\<close>

fun splitlines_from :: "str \<Rightarrow> str \<Rightarrow> str list" where
  "splitlines_from cur [] = (if cur = [] then [] else [cur])"
| "splitlines_from cur [c] = [cur @ [c]]"
| "splitlines_from cur (c # c' # cs) =
     (if c = 13 \<and> c' = 10 then (cur @ [c, c']) # splitlines_from [] cs
      else if is_linebreak c then (cur @ [c]) # splitlines_from [] (c' # cs)
      else splitlines_from (cur @ [c]) (c' # cs))"

definition splitlines :: "str \<Rightarrow> str list" where
  "splitlines text = splitlines_from [] text"

text \<open>\<open>re.split(r"(?<=[\.!?...])\s+", text)\<close>: the pattern matches a maximal run of
  white space that directly follows a terminator; the pieces between the matches are
  returned and the matched runs are dropped. The first argument is the piece read so far.\<close>

function sentence_split :: "str \<Rightarrow> str \<Rightarrow> str list" where
  "sentence_split acc [] = [acc]"
| "sentence_split acc (c # cs) =
     (if is_terminator c \<and> cs \<noteq> [] \<and> isspace (hd cs)
      then (acc @ [c]) # sentence_split [] (dropWhile isspace cs)
      else sentence_split (acc @ [c]) cs)"
  by pat_completeness auto
termination
  by (relation "measure (\<lambda>(acc, xs). length xs)")
     (auto simp: length_dropWhile_le le_imp_less_Suc)

text \<open>\<open>ch.split(" ")\<close>: every single space separates, so adjacent spaces give empty
  pieces.\<close>

fun split_space :: "str \<Rightarrow> str \<Rightarrow> str list" where
  "split_space acc [] = [acc]"
| "split_space acc (c # cs) =
     (if c = 32 then acc # split_space [] cs else split_space (acc @ [c]) cs)"

text \<open>\<open>range(0, stop, step)\<close> as the list it iterates over; a zero step raises.\<close>

definition py_range :: "int \<Rightarrow> int \<Rightarrow> exn + int list" where
  "py_range stop step =
     (if step = 0 then Inl (Exn ''ValueError'' (str_of ''range() arg 3 must not be zero''))
      else if 0 < step
        then Inr (map (\<lambda>k. int k * step) [0 ..< nat ((stop + step - 1) div step)])
        else Inr (map (\<lambda>k. int k * step) [0 ..< nat ((- stop - step - 1) div (- step))]))"

text \<open>The slice \<open>ch[i : j]\<close>: a negative bound counts from the end, and both bounds are
  clamped to the text.\<close>

definition slice_bound :: "int \<Rightarrow> nat \<Rightarrow> nat" where
  "slice_bound k n = (if k < 0 then nat (max (k + int n) 0) else min (nat k) n)"

definition slice :: "str \<Rightarrow> int \<Rightarrow> int \<Rightarrow> str" where
  "slice ch i j =
     (let lo = slice_bound i (length ch); hi = slice_bound j (length ch)
      in take (hi - lo) (drop lo ch))"

section \<open>The segmenter: \<open>ENVITranslator._chunk_text\<close>\<close>

text \<open>First pass, the loop over the sentences with its buffer \<open>buf\<close> and the list
  \<open>chunks\<close>; the last equation's result includes the flush after the loop.\<close>

definition with_space :: "str \<Rightarrow> str" where
  "with_space s = (if \<not> endswith_nl s then s @ [32] else s)"

fun pack_sentences :: "int \<Rightarrow> str list \<Rightarrow> str \<Rightarrow> str list \<Rightarrow> str list" where
  "pack_sentences m [] buf chunks = (if buf \<noteq> [] then chunks @ [buf] else chunks)"
| "pack_sentences m (s # ss) buf chunks =
     (let s_with_space = with_space s in
      if buf = [] then pack_sentences m ss s_with_space chunks
      else if int (length buf) + int (length s_with_space) \<le> m
        then pack_sentences m ss (buf @ s_with_space) chunks
      else pack_sentences m ss s_with_space (if buf \<noteq> [] then chunks @ [buf] else chunks))"

text \<open>Second pass: the inner loop over the words of one oversized chunk, appending to
  \<open>refined\<close>, and the outer loop over the chunks.\<close>

fun pack_words :: "int \<Rightarrow> str list \<Rightarrow> str \<Rightarrow> str list \<Rightarrow> str list" where
  "pack_words m [] cur refined = (if cur \<noteq> [] then refined @ [cur] else refined)"
| "pack_words m (w # ws) cur refined =
     (let seg = w @ [32] in
      if cur = [] then pack_words m ws seg refined
      else if int (length cur) + int (length seg) \<le> m
        then pack_words m ws (cur @ seg) refined
      else pack_words m ws seg (refined @ [cur]))"

fun refine :: "int \<Rightarrow> str list \<Rightarrow> str list \<Rightarrow> str list" where
  "refine m [] refined = refined"
| "refine m (ch # chs) refined =
     (if int (length ch) \<le> m then refine m chs (refined @ [ch])
      else refine m chs (pack_words m (split_space [] ch) [] refined))"

text \<open>Third pass: a piece that is still too long is cut every \<open>max_chars\<close> code points.\<close>

fun hard_split :: "int \<Rightarrow> str list \<Rightarrow> str list \<Rightarrow> exn + str list" where
  "hard_split m [] final = Inr final"
| "hard_split m (ch # chs) final =
     (if int (length ch) \<le> m then hard_split m chs (final @ [ch])
      else (case py_range (int (length ch)) m of
              Inl e \<Rightarrow> Inl e
            | Inr starts \<Rightarrow> hard_split m chs (final @ map (\<lambda>i. slice ch i (i + m)) starts)))"

definition chunk_text :: "str \<Rightarrow> int \<Rightarrow> exn + str list" where
  "chunk_text text max_chars =
     (if int (length text) \<le> max_chars then Inr [text]
      else hard_split max_chars
             (refine max_chars (pack_sentences max_chars (sentence_split [] text) [] []) [])
             [])"

section \<open>The provider and the retrying invoker: \<open>ENVITranslator._retry_translate\<close>\<close>

text \<open>
  The observable effects are recorded in a state: the texts sent to the provider, in order,
  the sleeps, in order, and how often the language catalogue was read. The provider object
  \<open>self._translator\<close> is outside the repository; its answer may depend on everything sent
  before, so it is a function of that history and of the text.
\<close>

record pstate =
  sent :: "str list"
  slept :: "real list"
  catalog_reads :: nat

type_synonym provider = "str list \<Rightarrow> str \<Rightarrow> exn + str"

definition call_provider :: "provider \<Rightarrow> str \<Rightarrow> pstate \<Rightarrow> (exn + str) \<times> pstate" where
  "call_provider P text st = (P (sent st) text, st\<lparr>sent := sent st @ [text]\<rparr>)"

text \<open>
  The backoff is a Python float. A finite float is read as the real number it denotes; the
  infinities and NaN are no values of the model. Line 101 multiplies the float by the
  integer \<open>2 ** (attempt - 1)\<close>: the integer is converted to a float first, which raises
  \<open>OverflowError\<close> from \<open>2 ** 1024\<close> on. The product of a float and a power of two is
  exact unless it overflows to an infinity, and \<open>time.sleep\<close> refuses an infinity as it
  refuses every length beyond its range, so the real product stands for the float product.
\<close>

definition backoff_delay :: "real \<Rightarrow> int \<Rightarrow> exn + real" where
  "backoff_delay backoff attempt =
     (if 1024 \<le> attempt - 1
      then Inl (Exn ''OverflowError'' (str_of ''int too large to convert to float''))
      else Inr (backoff * 2 ^ nat (attempt - 1)))"

text \<open>\<open>time.sleep(secs)\<close>: the length is converted to a signed 64-bit count of
  nanoseconds, which raises \<open>OverflowError\<close> beyond that range; a negative length raises
  \<open>ValueError\<close>.\<close>

definition sleep :: "real \<Rightarrow> pstate \<Rightarrow> exn + pstate" where
  "sleep secs st =
     (if secs * 10 ^ 9 < - (2 ^ 63) \<or> 2 ^ 63 \<le> secs * 10 ^ 9
      then Inl (Exn ''OverflowError'' (str_of ''timestamp too large to convert to C _PyTime_t''))
      else if secs < 0
        then Inl (Exn ''ValueError'' (str_of ''sleep length must be non-negative''))
      else Inr (st\<lparr>slept := slept st @ [secs]\<rparr>))"

text \<open>The \<open>while True\<close> loop of \<open>_retry_translate\<close>, with the loop variable \<open>attempt\<close>
  as an argument. An exception of the provider that \<open>except Exception\<close> does not catch
  leaves the function at once. What line 101 raises, in the handler, leaves the function
  too. The exponent \<open>attempt - 1\<close> is never negative, since \<open>attempt\<close> starts at zero and
  is incremented before the sleep.\<close>

function retry_loop ::
  "provider \<Rightarrow> str \<Rightarrow> int \<Rightarrow> real \<Rightarrow> int \<Rightarrow> pstate \<Rightarrow> (exn + str) \<times> pstate" where
  "retry_loop P text retries backoff attempt st =
     (case call_provider P text st of
        (Inr r, st1) \<Rightarrow> (Inr r, st1)
      | (Inl e, st1) \<Rightarrow>
          (if \<not> is_Exception e then (Inl e, st1)
           else if attempt + 1 > retries then (Inl e, st1)
           else (case backoff_delay backoff (attempt + 1) of
                   Inl e' \<Rightarrow> (Inl e', st1)
                 | Inr secs \<Rightarrow>
                     (case sleep secs st1 of
                        Inl e' \<Rightarrow> (Inl e', st1)
                      | Inr st2 \<Rightarrow> retry_loop P text retries backoff (attempt + 1) st2))))"
  by pat_completeness auto
termination
  by (relation "measure (\<lambda>(P, text, retries, backoff, attempt, st). nat (retries - attempt))")
     auto

definition retry_translate ::
  "provider \<Rightarrow> str \<Rightarrow> int \<Rightarrow> real \<Rightarrow> pstate \<Rightarrow> (exn + str) \<times> pstate" where
  "retry_translate P text retries backoff st = retry_loop P text retries backoff 0 st"

section \<open>The orchestrator: \<open>ENVITranslator.translate_text\<close>\<close>

text \<open>The inner loop over the chunks of one line, with the list \<open>translated_chunks\<close>.\<close>

fun translate_chunks ::
  "provider \<Rightarrow> int \<Rightarrow> real \<Rightarrow> str list \<Rightarrow> str list \<Rightarrow> pstate \<Rightarrow> (exn + str list) \<times> pstate"
  where
  "translate_chunks P retries backoff [] translated_chunks st = (Inr translated_chunks, st)"
| "translate_chunks P retries backoff (chunk # chunks) translated_chunks st =
     (case retry_translate P chunk retries backoff st of
        (Inl e, st1) \<Rightarrow> (Inl e, st1)
      | (Inr translated, st1) \<Rightarrow>
          translate_chunks P retries backoff chunks (translated_chunks @ [translated]) st1)"

text \<open>The outer loop over the lines, with the list \<open>out\<close>.\<close>

fun translate_lines ::
  "provider \<Rightarrow> int \<Rightarrow> int \<Rightarrow> real \<Rightarrow> str list \<Rightarrow> str list \<Rightarrow> pstate \<Rightarrow>
     (exn + str list) \<times> pstate" where
  "translate_lines P max_chars retries backoff [] out st = (Inr out, st)"
| "translate_lines P max_chars retries backoff (line # lines) out st =
     (if strip line = [] then translate_lines P max_chars retries backoff lines (out @ [line]) st
      else (case chunk_text line max_chars of
              Inl e \<Rightarrow> (Inl e, st)
            | Inr chunks \<Rightarrow>
                (case translate_chunks P retries backoff chunks [] st of
                   (Inl e, st1) \<Rightarrow> (Inl e, st1)
                 | (Inr translated_chunks, st1) \<Rightarrow>
                     translate_lines P max_chars retries backoff lines
                       (out @ [concat translated_chunks]) st1)))"

definition translate_text ::
  "provider \<Rightarrow> str \<Rightarrow> bool \<Rightarrow> int \<Rightarrow> int \<Rightarrow> real \<Rightarrow> pstate \<Rightarrow> (exn + str) \<times> pstate" where
  "translate_text P text preserve_format max_chars retries retry_backoff_sec st =
     (if text = [] then (Inr [], st)
      else if \<not> preserve_format then retry_translate P text retries retry_backoff_sec st
      else (case translate_lines P max_chars retries retry_backoff_sec (splitlines text) [] st of
              (Inl e, st1) \<Rightarrow> (Inl e, st1)
            | (Inr out, st1) \<Rightarrow> (Inr (concat out), st1)))"

section \<open>Language normalisation and construction\<close>

text \<open>
  What the translator takes from outside the repository: \<open>str.lower\<close> of the Python runtime
  (a Unicode table), the language catalogue \<open>GoogleTranslator.get_supported_languages\<close>
  (the items of a name-to-code dictionary in order, or an exception), and the constructor
  \<open>GoogleTranslator(source, target)\<close>, which gives a provider or raises.
\<close>

record env =
  lower :: "str \<Rightarrow> str"
  supported_languages :: "exn + (str \<times> str) list"
  google :: "str \<Rightarrow> str \<Rightarrow> exn + provider"

text \<open>A dictionary built by a comprehension over items: a later item overwrites an earlier
  one with the same key.\<close>

definition dict_get :: "(str \<times> str) list \<Rightarrow> str \<Rightarrow> str option" where
  "dict_get items k = map_of (rev items) k"

text \<open>\<open>key.replace("_", "-")\<close>.\<close>

definition replace_underscore :: "str \<Rightarrow> str" where
  "replace_underscore s = map (\<lambda>c. if c = 95 then 45 else c) s"

definition alias_table :: "(str \<times> str) list" where
  "alias_table = [(str_of ''zh-cn'', str_of ''zh-CN''), (str_of ''zh-tw'', str_of ''zh-TW''),
            (str_of ''pt-br'', str_of ''pt''), (str_of ''pt-pt'', str_of ''pt'')]"

definition normalize_lang :: "env \<Rightarrow> str \<Rightarrow> pstate \<Rightarrow> (exn + str) \<times> pstate" where
  "normalize_lang E lang st =
     (if lang = [] then (Inr (str_of ''auto''), st)
      else if lower E lang = str_of ''auto'' then (Inr (str_of ''auto''), st)
      else
        (let st1 = st\<lparr>catalog_reads := catalog_reads st + 1\<rparr> in
         case (case supported_languages E of
                 Inl e \<Rightarrow> if is_Exception e then Inr [] else Inl e
               | Inr items \<Rightarrow> Inr items) of
           Inl e \<Rightarrow> (Inl e, st1)
         | Inr mapping \<Rightarrow>
             (let name_to_code = map (\<lambda>(name, code). (lower E name, code)) mapping;
                  codes = map (\<lambda>(name, code). (lower E code, code)) mapping;
                  key = replace_underscore (strip (lower E lang))
              in (case dict_get codes key of
                    Some code \<Rightarrow> (Inr code, st1)
                  | None \<Rightarrow>
                      (case dict_get name_to_code key of
                         Some code \<Rightarrow> (Inr code, st1)
                       | None \<Rightarrow>
                           (case dict_get alias_table key of
                              Some code \<Rightarrow> (Inr code, st1)
                            | None \<Rightarrow> (Inr lang, st1)))))))"

text \<open>\<open>ENVITranslator.__init__\<close>: the object keeps the normalised pair and the provider.\<close>

record envi_translator =
  source :: str
  target :: str
  translator :: provider

definition init :: "env \<Rightarrow> str \<Rightarrow> str \<Rightarrow> pstate \<Rightarrow> (exn + envi_translator) \<times> pstate" where
  "init E src tgt st =
     (case normalize_lang E src st of
        (Inl e, st1) \<Rightarrow> (Inl e, st1)
      | (Inr norm_source, st1) \<Rightarrow>
          (case normalize_lang E tgt st1 of
             (Inl e, st2) \<Rightarrow> (Inl e, st2)
           | (Inr norm_target, st2) \<Rightarrow>
               (case google E norm_source norm_target of
                  Inl e \<Rightarrow> (Inl e, st2)
                | Inr p \<Rightarrow>
                    (Inr \<lparr>source = norm_source, target = norm_target, translator = p\<rparr>, st2))))"

section \<open>The batch endpoint: \<open>translate_batch\<close> of main.py\<close>

record batch_translate_item =
  item_text :: str
  item_source :: str
  item_target :: str

record batch_translate_request =
  items :: "batch_translate_item list"
  preserve_format :: bool
  max_chars :: int
  retries :: int
  retry_backoff_sec :: real

text \<open>How the endpoint fails: with the \<open>HTTPException(status_code, detail)\<close> that its
  handler raises, or with an exception that its handler does not catch.\<close>

datatype endpoint_failure = HTTPException int str | Uncaught exn

text \<open>The body of the loop over the items: a translator is constructed for the item's
  language pair and translates the item's text with the request's settings.\<close>

definition translate_item ::
  "env \<Rightarrow> batch_translate_request \<Rightarrow> batch_translate_item \<Rightarrow> pstate \<Rightarrow> (exn + str) \<times> pstate"
  where
  "translate_item E req it st =
     (case init E (item_source it) (item_target it) st of
        (Inl e, st1) \<Rightarrow> (Inl e, st1)
      | (Inr tr, st1) \<Rightarrow>
          translate_text (translator tr) (item_text it) (preserve_format req)
            (max_chars req) (retries req) (retry_backoff_sec req) st1)"

text \<open>The loop over the items with the list \<open>outputs\<close>; an exception leaves the loop.\<close>

fun batch_loop ::
  "env \<Rightarrow> batch_translate_request \<Rightarrow> batch_translate_item list \<Rightarrow> str list \<Rightarrow> pstate \<Rightarrow>
     (exn + str list) \<times> pstate" where
  "batch_loop E req [] outputs st = (Inr outputs, st)"
| "batch_loop E req (it # its) outputs st =
     (case translate_item E req it st of
        (Inl e, st1) \<Rightarrow> (Inl e, st1)
      | (Inr out, st1) \<Rightarrow> batch_loop E req its (outputs @ [out]) st1)"

text \<open>The \<open>try\<close> around the whole loop: an exception that \<open>except Exception\<close> catches
  becomes one HTTP 500 answer whose detail is \<open>str(e)\<close>; any other leaves the endpoint
  as it is.\<close>

definition translate_batch ::
  "env \<Rightarrow> batch_translate_request \<Rightarrow> pstate \<Rightarrow> (endpoint_failure + str list) \<times> pstate" where
  "translate_batch E req st =
     (case batch_loop E req (items req) [] st of
        (Inl e, st1) \<Rightarrow>
          (Inl (if is_Exception e then HTTPException 500 (exn_str e) else Uncaught e), st1)
      | (Inr outputs, st1) \<Rightarrow> (Inr outputs, st1))"

section \<open>Provider stubs and environments for the properties\<close>

text \<open>The state before anything has happened.\<close>

definition st0 :: pstate where
  "st0 = \<lparr>sent = [], slept = [], catalog_reads = 0\<rparr>"

text \<open>The provider that translates every text to itself.\<close>

definition identity_provider :: provider where
  "identity_provider history text = Inr text"

text \<open>The provider that raises on every call.\<close>

definition raising_provider :: "exn \<Rightarrow> provider" where
  "raising_provider e history text = Inl e"

text \<open>The provider that fails its first \<open>k\<close> calls, the call with \<open>i\<close> calls before it
  raising \<open>err i\<close>, and answers \<open>tr text\<close> afterwards.\<close>

definition flaky_provider :: "nat \<Rightarrow> (nat \<Rightarrow> exn) \<Rightarrow> (str \<Rightarrow> str) \<Rightarrow> provider" where
  "flaky_provider k err tr history text =
     (if length history < k then Inl (err (length history)) else Inr (tr text))"

text \<open>The failure of call number \<open>i\<close> of a provider stub: a \<open>ProviderError\<close> whose message
  ends in the digit \<open>i\<close>.\<close>

definition provider_error :: "nat \<Rightarrow> exn" where
  "provider_error i = Exn ''ProviderError'' (str_of ''failure '' @ [48 + i])"



text \<open>The non-preserving mode as the specification words it: the whole document is one
  unit, which is segmented, translated chunk by chunk through the retrying invoker and
  concatenated in order.\<close>

definition spec_translate_unit ::
  "provider \<Rightarrow> str \<Rightarrow> int \<Rightarrow> int \<Rightarrow> real \<Rightarrow> pstate \<Rightarrow> (exn + str) \<times> pstate" where
  "spec_translate_unit P text maxChars nretries backoff st =
     (case chunk_text text maxChars of
        Inl e \<Rightarrow> (Inl e, st)
      | Inr chunks \<Rightarrow>
          (case translate_chunks P nretries backoff chunks [] st of
             (Inl e, st1) \<Rightarrow> (Inl e, st1)
           | (Inr translated_chunks, st1) \<Rightarrow> (Inr (concat translated_chunks), st1)))"

text \<open>Lower-casing restricted to the ASCII letters, as an instance of \<open>str.lower\<close>.\<close>

definition ascii_lower :: "str \<Rightarrow> str" where
  "ascii_lower s = map (\<lambda>c. if 65 \<le> c \<and> c \<le> 90 then c + 32 else c) s"

text \<open>An environment with a two-language catalogue whose provider for the target
  \<open>vi\<close> is down and whose other providers translate every text to itself.\<close>

definition demo_env :: env where
  "demo_env =
     \<lparr>lower = ascii_lower,
      supported_languages =
        Inr [(str_of ''english'', str_of ''en''), (str_of ''vietnamese'', str_of ''vi'')],
      google = (\<lambda>src tgt.
        if tgt = str_of ''vi''
        then Inr (raising_provider (Exn ''RequestError'' (str_of ''service unavailable'')))
        else Inr identity_provider)\<rparr>"

definition demo_item_vi :: batch_translate_item where
  "demo_item_vi =
     \<lparr>item_text = str_of ''hello'', item_source = str_of ''auto'', item_target = str_of ''vi''\<rparr>"

definition demo_item_en :: batch_translate_item where
  "demo_item_en =
     \<lparr>item_text = str_of ''xin chao'', item_source = str_of ''Vietnamese'',
      item_target = str_of ''en''\<rparr>"

text \<open>A batch whose first item needs the provider that is down and whose second item
  does not, and a batch of the second item alone.\<close>

definition demo_request :: batch_translate_request where
  "demo_request =
     \<lparr>items = [demo_item_vi, demo_item_en],
      preserve_format = True, max_chars = 4500, retries = 0, retry_backoff_sec = 1\<rparr>"

definition demo_request_en :: batch_translate_request where
  "demo_request_en =
     \<lparr>items = [demo_item_en],
      preserve_format = True, max_chars = 4500, retries = 0, retry_backoff_sec = 1\<rparr>"

section \<open>Properties of the segmenter\<close>

subsection \<open>The size bound\<close>

lemma length_slice_le: "0 \<le> i \<Longrightarrow> 0 \<le> m \<Longrightarrow> int (length (slice ch i (i + m))) \<le> m"
  by (auto simp: slice_def slice_bound_def Let_def min_def nat_add_distrib)

lemma py_range_pos:
  "0 < m \<Longrightarrow> \<exists>starts. py_range n m = Inr starts \<and> (\<forall>i \<in> set starts. 0 \<le> i)"
  by (auto simp: py_range_def)

lemma hard_split_bound:
  "1 \<le> m \<Longrightarrow> \<forall>c \<in> set final. int (length c) \<le> m \<Longrightarrow>
     \<exists>fs. hard_split m chs final = Inr fs \<and> (\<forall>c \<in> set fs. int (length c) \<le> m)"
proof (induction chs arbitrary: final)
  case Nil
  then show ?case by simp
next
  case (Cons ch chs)
  show ?case
  proof (cases "int (length ch) \<le> m")
    case True
    with Cons.prems have "\<forall>c \<in> set (final @ [ch]). int (length c) \<le> m" by auto
    from Cons.IH [OF Cons.prems(1) this] True show ?thesis by simp
  next
    case False
    from Cons.prems(1) obtain starts where
      st: "py_range (int (length ch)) m = Inr starts" "\<forall>i \<in> set starts. 0 \<le> i"
      using py_range_pos [of m "int (length ch)"] by auto
    have "\<forall>c \<in> set (final @ map (\<lambda>i. slice ch i (i + m)) starts). int (length c) \<le> m"
      using Cons.prems st(2) by (auto intro: length_slice_le)
    from Cons.IH [OF Cons.prems(1) this] False st(1) show ?thesis by simp
  qed
qed

text \<open>
  Claim C2. For every string \<open>s\<close> and every \<open>maxChars \<ge> 1\<close>, \<open>_chunk_text\<close> returns a
  list (it does not raise), every element of that list has length at most \<open>maxChars\<close>, and
  in the passthrough case \<open>len(s) \<le> maxChars\<close> the list is \<open>[s]\<close>, the input unmodified.
\<close>

theorem chunk_text_bound:
  "1 \<le> maxChars \<Longrightarrow>
     \<exists>chunks. chunk_text s maxChars = Inr chunks \<and>
       (\<forall>c \<in> set chunks. int (length c) \<le> maxChars) \<and>
       (int (length s) \<le> maxChars \<longrightarrow> chunks = [s])"
proof (cases "int (length s) \<le> maxChars")
  case True
  then show ?thesis by (simp add: chunk_text_def)
next
  case False
  assume m: "1 \<le> maxChars"
  have "\<forall>c \<in> set ([]::str list). int (length c) \<le> maxChars" by simp
  from hard_split_bound [OF m this] False show ?thesis
    by (simp add: chunk_text_def)
qed

theorem chunk_text_bound_witness:
  "(1::int) \<le> 3 \<and>
   (\<exists>chunks. chunk_text (str_of ''ab cd'') 3 = Inr chunks \<and>
       (\<forall>c \<in> set chunks. int (length c) \<le> 3) \<and>
       (int (length (str_of ''ab cd'')) \<le> 3 \<longrightarrow> chunks = [str_of ''ab cd'']))"
proof -
  have h: "(1::int) \<le> 3" by simp
  show ?thesis using chunk_text_bound [OF h, of "str_of ''ab cd''"] h by simp
qed

subsection \<open>The empty text\<close>

text \<open>
  Claim C8 says that \<open>_chunk_text\<close> returns an empty sequence for the empty string, for
  every \<open>maxChars\<close>. With \<open>maxChars = 100\<close> the length test of the first line holds and
  the result is the one-element list holding the empty string.
\<close>

theorem chunk_text_empty_counterexample: "chunk_text [] 100 \<noteq> Inr []"
  by (simp add: chunk_text_def)

text \<open>
  Claim C8 as amended. For the empty string and every \<open>maxChars \<ge> 0\<close>, \<open>_chunk_text\<close>
  returns the one-element list \<open>[""]\<close>: the passthrough case applies to it.
\<close>

theorem chunk_text_empty: "0 \<le> maxChars \<Longrightarrow> chunk_text [] maxChars = Inr [[]]"
  by (simp add: chunk_text_def)

theorem chunk_text_empty_witness: "(0::int) \<le> 4500 \<and> chunk_text [] 4500 = Inr [[]]"
proof -
  have h: "(0::int) \<le> 4500" by simp
  show ?thesis using chunk_text_empty [OF h] h by simp
qed

subsection \<open>One token without white space\<close>

lemma sentence_split_no_space:
  "\<forall>c \<in> set xs. \<not> isspace c \<Longrightarrow> sentence_split acc xs = [acc @ xs]"
proof (induction xs arbitrary: acc)
  case Nil
  then show ?case by simp
next
  case (Cons c cs)
  from Cons.prems have ncs: "\<forall>c \<in> set cs. \<not> isspace c" by simp
  then have h: "cs = [] \<or> \<not> isspace (hd cs)" by (cases cs) auto
  show ?case using Cons.IH [OF ncs] h by auto
qed

lemma split_space_no_space:
  "32 \<notin> set xs \<Longrightarrow> split_space acc xs = [acc @ xs]"
  by (induction xs arbitrary: acc) auto

lemma split_space_trailing:
  "32 \<notin> set xs \<Longrightarrow> split_space acc (xs @ [32]) = [acc @ xs, []]"
  by (induction xs arbitrary: acc) auto

lemma isspace_32: "isspace 32" by (simp add: isspace_def)
lemma isspace_10: "isspace 10" by (simp add: isspace_def)

lemma token_refined:
  assumes "\<forall>c \<in> set t. \<not> isspace c" and "t \<noteq> []" and "m < int (length t)"
  shows "refine m (pack_sentences m (sentence_split [] t) [] []) [] = [t @ [32], [32]]"
proof -
  have ns: "32 \<notin> set t" using assms(1) isspace_32 by blast
  have "last t \<in> set t" using assms(2) by simp
  then have "last t \<noteq> 10" using assms(1) isspace_10 by metis
  then have ws: "with_space t = t @ [32]" by (simp add: with_space_def endswith_nl_def)
  have ss: "sentence_split [] t = [t]"
    using assms(1) by (simp add: sentence_split_no_space)
  have ps: "pack_sentences m [t] [] [] = [t @ [32]]"
    by (simp add: ws)
  have sp: "split_space [] (t @ [32]) = [t, []]"
    using ns by (simp add: split_space_trailing)
  have pw: "pack_words m [t, []] [] [] = [t @ [32], [32]]"
    using assms(3) by (simp add: Let_def)
  show ?thesis unfolding ss ps using assms(3) sp pw by simp
qed

lemma slice_nat: "slice ch (int i) (int i + int n) = take n (drop i ch)"
proof -
  have "int i + int n = int (i + n)" by simp
  then have "slice ch (int i) (int i + int n) = slice ch (int i) (int (i + n))" by simp
  also have "\<dots> = take (min (i + n) (length ch) - min i (length ch)) (drop (min i (length ch)) ch)"
    unfolding slice_def slice_bound_def Let_def by (simp only: nat_int) simp
  also have "\<dots> = take n (drop i ch)"
    by (cases "i \<le> length ch") (auto simp: min_def)
  finally show ?thesis .
qed

lemma take_drop_replicate:
  "j < k \<Longrightarrow> take n (drop (j * n) (replicate (n * k) a @ r)) = replicate n a"
proof -
  assume jk: "j < k"
  then have "Suc j \<le> k" by simp
  then have "Suc j * n \<le> k * n" by (rule mult_le_mono1)
  then have le: "j * n + n \<le> n * k" by (simp add: mult.commute)
  then show ?thesis by (simp add: min_def)
qed

lemma slices_replicate:
  "map (\<lambda>i. slice (replicate (n * k) a @ r) i (i + int n)) (map (\<lambda>j. int j * int n) [0 ..< k])
     = replicate k (replicate n a)"
proof -
  have "map (\<lambda>j. slice (replicate (n * k) a @ r) (int (j * n)) (int (j * n) + int n)) [0 ..< k]
      = map (\<lambda>j. replicate n a) [0 ..< k]"
    by (intro map_cong) (auto simp only: slice_nat take_drop_replicate atLeastLessThan_iff set_upt)
  then show ?thesis by (simp add: comp_def map_replicate_const)
qed

lemma py_range_multiple:
  "0 < n \<Longrightarrow> py_range (int (n * k + 1)) (int n) = Inr (map (\<lambda>j. int j * int n) [0 ..< Suc k])"
proof -
  assume n: "0 < n"
  have "int (n * k + 1) + int n - 1 = int n * int (Suc k)" by (simp add: algebra_simps)
  then have "(int (n * k + 1) + int n - 1) div int n = int (Suc k)"
    using n by (simp only: nonzero_mult_div_cancel_left)
  then show ?thesis using n unfolding py_range_def by (simp only: nat_int) simp
qed

lemma slice_tail:
  "slice (replicate (n * k) a @ [s]) (int k * int n) (int k * int n + int n) = (if n = 0 then [] else [s])"
proof -
  have "slice (replicate (n * k) a @ [s]) (int (k * n)) (int (k * n) + int n) = take n (drop (k * n) (replicate (n * k) a @ [s]))"
    by (rule slice_nat)
  then show ?thesis by (simp add: mult.commute)
qed

lemma hard_split_token:
  assumes "0 < n" and "0 < k"
  shows "hard_split (int n) [replicate (n * k) a @ [32], [32]] []
           = Inr (replicate k (replicate n a) @ [[32], [32]])"
proof -
  have big: "\<not> int (length (replicate (n * k) a @ [32])) \<le> int n"
  proof -
    have "n \<le> n * k" using assms(2) by (cases k) simp_all
    then have "int n \<le> int (n * k)" by (simp only: of_nat_le_iff)
    then show ?thesis by simp
  qed
  have small: "int (length [32::nat]) \<le> int n" using assms(1) by simp
  have len: "int (length (replicate (n * k) a @ [32])) = int (n * k + 1)" by simp
  have cut: "map (\<lambda>i. slice (replicate (n * k) a @ [32]) i (i + int n)) (map (\<lambda>j. int j * int n) [0 ..< Suc k])
      = replicate k (replicate n a) @ [[32]]"
    using slices_replicate [of n k a "[32]"] slice_tail [of n k a 32] assms(1) by simp
  show ?thesis
    unfolding hard_split.simps len py_range_multiple [OF assms(1)] 
    using big small cut by (simp del: upt_Suc)
qed

text \<open>
  Claim C7 expects, for a single token of 5000 code points without spaces and
  \<open>maxChars = 100\<close>, exactly 50 chunks of exactly 100 code points. The first pass appends
  a space to the only sentence and the second pass appends a space to every word, the
  empty word after that space included, so the code returns 52 chunks: the 50 expected
  ones and two chunks that hold one space each.
\<close>

theorem chunk_text_single_token:
  "chunk_text (replicate 5000 97) 100 = Inr (replicate 50 (replicate 100 97) @ [[32], [32]])"
proof -
  have ns: "\<forall>c \<in> set (replicate 5000 (97::nat)). \<not> isspace c" by (simp add: isspace_def)
  have ne: "replicate 5000 (97::nat) \<noteq> []" by simp
  have lt: "(100::int) < int (length (replicate 5000 (97::nat)))" by simp
  have r: "refine 100 (pack_sentences 100 (sentence_split [] (replicate 5000 97)) [] []) []
      = [replicate 5000 97 @ [32], [32]]"
    by (rule token_refined [OF ns ne lt])
  have h: "hard_split (int 100) [replicate (100 * 50) 97 @ [32], [32]] []
      = Inr (replicate 50 (replicate 100 97) @ [[32], [32]])"
    by (rule hard_split_token) simp_all
  have "chunk_text (replicate 5000 97) 100 = hard_split 100 [replicate 5000 97 @ [32], [32]] []"
    unfolding chunk_text_def r using lt by simp
  also have "\<dots> = Inr (replicate 50 (replicate 100 97) @ [[32], [32]])"
    using h by simp
  finally show ?thesis .
qed

section \<open>Properties of the retrying invoker\<close>

text \<open>The loop is unfolded one iteration at a time.\<close>

declare retry_loop.simps [simp del]









text \<open>
  Outside these hypotheses the invoker ends differently. A sleep of \<open>1e10\<close> seconds is
  beyond the range of \<open>time.sleep\<close>: the \<open>OverflowError\<close> of line 101 leaves the function
  after one call, although a retry was left. A \<open>KeyboardInterrupt\<close> of the provider is
  not caught and leaves the function after one call as well.
\<close>

lemma retry_translate_sleep_overflow:
  "retry_translate (flaky_provider 1 provider_error id) (str_of ''hi'') 1 (10 ^ 10) st0
     = (Inl (Exn ''OverflowError'' (str_of ''timestamp too large to convert to C _PyTime_t'')),
        st0\<lparr>sent := [str_of ''hi'']\<rparr>)"
  by (simp add: retry_translate_def retry_loop.simps call_provider_def flaky_provider_def
        st0_def provider_error_def is_Exception_def base_exception_only_def backoff_delay_def
        sleep_def)

lemma retry_translate_uncaught:
  "retry_translate (raising_provider (Exn ''KeyboardInterrupt'' [])) (str_of ''hi'') 3 1 st0
     = (Inl (Exn ''KeyboardInterrupt'' []), st0\<lparr>sent := [str_of ''hi'']\<rparr>)"
  by (simp add: retry_translate_def retry_loop.simps call_provider_def raising_provider_def
        st0_def is_Exception_def base_exception_only_def)

section \<open>Properties of the orchestrator\<close>

subsection \<open>Lines and the loop over them\<close>

lemma concat_splitlines_from: "concat (splitlines_from cur xs) = cur @ xs"
  by (induction cur xs rule: splitlines_from.induct) auto

lemma concat_splitlines: "concat (splitlines d) = d"
  by (simp add: splitlines_def concat_splitlines_from)

lemma translate_lines_length:
  "translate_lines P m r b ls out st = (Inr res, st') \<Longrightarrow> length res = length out + length ls"
proof (induction ls arbitrary: out st)
  case Nil
  then show ?case by auto
next
  case (Cons l ls)
  show ?case
  proof (cases "strip l = []")
    case True
    with Cons.prems have "translate_lines P m r b ls (out @ [l]) st = (Inr res, st')" by simp
    from Cons.IH [OF this] show ?thesis by simp
  next
    case False
    with Cons.prems obtain chunks tcs st1 where
      "translate_lines P m r b ls (out @ [concat tcs]) st1 = (Inr res, st')"
      by (auto split: sum.splits prod.splits)
    from Cons.IH [OF this] show ?thesis by simp
  qed
qed

lemma translate_lines_out:
  "translate_lines P m r b ls out st =
     (case translate_lines P m r b ls [] st of
        (Inl e, s) \<Rightarrow> (Inl e, s)
      | (Inr res, s) \<Rightarrow> (Inr (out @ res), s))"
proof (induction ls arbitrary: out st)
  case Nil
  then show ?case by simp
next
  case (Cons l ls)
  note ih = Cons.IH
  show ?case
  proof (cases "strip l = []")
    case True
    show ?thesis
      using True ih [of "out @ [l]" st] ih [of "[l]" st]
      by (simp split: prod.splits sum.splits)
  next
    case False
    show ?thesis
    proof (cases "chunk_text l m")
      case (Inl e)
      with False show ?thesis by simp
    next
      case (Inr chunks)
      show ?thesis
      proof (cases "translate_chunks P r b chunks [] st")
        case (Pair res st1)
        show ?thesis
        proof (cases res)
          case (Inl e)
          with False Inr Pair show ?thesis by simp
        next
          case tc: (Inr tcs)
          show ?thesis
            using False Inr Pair tc ih [of "out @ [concat tcs]" st1] ih [of "[concat tcs]" st1]
            by (simp split: prod.splits sum.splits)
        qed
      qed
    qed
  qed
qed

lemma translate_lines_append:
  "translate_lines P m r b (xs @ ys) out st =
     (case translate_lines P m r b xs out st of
        (Inl e, s) \<Rightarrow> (Inl e, s)
      | (Inr res, s) \<Rightarrow> translate_lines P m r b ys res s)"
proof (induction xs arbitrary: out st)
  case Nil
  then show ?case by simp
next
  case (Cons l xs)
  then show ?case by (simp split: sum.splits prod.splits)
qed

lemma translate_lines_all_blank:
  "\<forall>l \<in> set ls. strip l = [] \<Longrightarrow> translate_lines P m r b ls out st = (Inr (out @ ls), st)"
  by (induction ls arbitrary: out) simp_all

subsection \<open>Blank lines\<close>

text \<open>
  Claim C5. With \<open>preserve_format = true\<close>, a line that holds only white space appears
  unchanged in the output at its original position and is never passed to the provider:
  the loop over the lines \<open>pre\<close>, the blank line \<open>l\<close> and the lines \<open>post\<close> gives the
  outputs of \<open>pre\<close>, then \<open>l\<close> itself, then the outputs of \<open>post\<close>, and \<open>post\<close> starts in
  the very state in which \<open>pre\<close> ended, so nothing was sent for \<open>l\<close>; the outputs of
  \<open>pre\<close> are as many as its lines, so \<open>l\<close> keeps its index. For a document whose lines
  are all blank the result is the document and the state is unchanged: the provider is
  invoked zero times, whatever it would have answered.
\<close>

theorem blank_lines_pass_through:
  "(strip l = [] \<longrightarrow>
      translate_lines P m r b (pre @ l # post) [] st =
        (case translate_lines P m r b pre [] st of
           (Inl e, s1) \<Rightarrow> (Inl e, s1)
         | (Inr out1, s1) \<Rightarrow>
             (case translate_lines P m r b post [] s1 of
                (Inl e, s2) \<Rightarrow> (Inl e, s2)
              | (Inr out2, s2) \<Rightarrow> (Inr (out1 @ l # out2), s2)))) \<and>
   (translate_lines P m r b pre [] st = (Inr out1', s1') \<longrightarrow> length out1' = length pre) \<and>
   ((\<forall>l' \<in> set (splitlines d). strip l' = []) \<longrightarrow>
      translate_text P d True m r b st = (Inr d, st))"
proof (intro conjI impI)
  assume bl: "strip l = []"
  show "translate_lines P m r b (pre @ l # post) [] st =
        (case translate_lines P m r b pre [] st of
           (Inl e, s1) \<Rightarrow> (Inl e, s1)
         | (Inr out1, s1) \<Rightarrow>
             (case translate_lines P m r b post [] s1 of
                (Inl e, s2) \<Rightarrow> (Inl e, s2)
              | (Inr out2, s2) \<Rightarrow> (Inr (out1 @ l # out2), s2)))"
  proof (cases "translate_lines P m r b pre [] st")
    case (Pair res s1)
    show ?thesis
    proof (cases res)
      case (Inl e)
      with Pair show ?thesis by (simp add: translate_lines_append)
    next
      case (Inr out1)
      have "translate_lines P m r b (l # post) out1 s1 =
          (case translate_lines P m r b post [] s1 of
             (Inl e, s2) \<Rightarrow> (Inl e, s2)
           | (Inr out2, s2) \<Rightarrow> (Inr (out1 @ l # out2), s2))"
        using bl translate_lines_out [of P m r b post "out1 @ [l]" s1]
        by (simp split: prod.splits sum.splits)
      with Pair Inr show ?thesis by (simp add: translate_lines_append)
    qed
  qed
next
  assume "translate_lines P m r b pre [] st = (Inr out1', s1')"
  from translate_lines_length [OF this] show "length out1' = length pre" by simp
next
  assume "\<forall>l' \<in> set (splitlines d). strip l' = []"
  then have "translate_lines P m r b (splitlines d) [] st = (Inr (splitlines d), st)"
    using translate_lines_all_blank [of "splitlines d" P m r b "[]" st] by simp
  then show "translate_text P d True m r b st = (Inr d, st)"
    by (simp add: translate_text_def concat_splitlines)
qed

theorem blank_lines_pass_through_witness:
  "strip [32, 10] = [] \<and>
   translate_lines (raising_provider (Exn ''AssertionError'' [])) 10 3 1
       ([[9, 10]] @ [32, 10] # [[13, 10]]) [] st0
     = (Inr [[9, 10], [32, 10], [13, 10]], st0) \<and>
   translate_text (raising_provider (Exn ''AssertionError'' [])) [9, 10, 32, 10, 13, 10] True 10 3 1 st0
     = (Inr [9, 10, 32, 10, 13, 10], st0)"
proof -
  have b: "strip [32, 10] = []" by (simp add: strip_def isspace_def)
  have pre: "translate_lines (raising_provider (Exn ''AssertionError'' [])) 10 3 1 [[9, 10]] [] st0
      = (Inr [[9, 10]], st0)"
    by (simp add: strip_def isspace_def)
  have post: "translate_lines (raising_provider (Exn ''AssertionError'' [])) 10 3 1 [[13, 10]] [] st0
      = (Inr [[13, 10]], st0)"
    by (simp add: strip_def isspace_def)
  have ls: "splitlines [9, 10, 32, 10, 13, 10] = [[9, 10], [32, 10], [13, 10]]"
    by (simp add: splitlines_def is_linebreak_def)
  have all: "\<forall>l' \<in> set (splitlines [9, 10, 32, 10, 13, 10]). strip l' = []"
    unfolding ls by (simp add: strip_def isspace_def)
  show ?thesis
    using blank_lines_pass_through [of "[32, 10]" "raising_provider (Exn ''AssertionError'' [])"
        10 3 1 "[[9, 10]]" "[[13, 10]]" st0 "[[9, 10]]" st0 "[9, 10, 32, 10, 13, 10]"]
      b pre post all
    by simp
qed

subsection \<open>The identity provider\<close>

lemma retry_translate_identity:
  "retry_translate identity_provider text r b st = (Inr text, st\<lparr>sent := sent st @ [text]\<rparr>)"
  unfolding retry_translate_def
  by (subst retry_loop.simps) (simp add: call_provider_def identity_provider_def)

lemma translate_lines_identity:
  "\<forall>l \<in> set ls. int (length l) \<le> m \<Longrightarrow>
     translate_lines identity_provider m r b ls out st
       = (Inr (out @ ls), st\<lparr>sent := sent st @ filter (\<lambda>l. strip l \<noteq> []) ls\<rparr>)"
proof (induction ls arbitrary: out st)
  case Nil
  then show ?case by simp
next
  case (Cons l ls)
  then have ih: "\<And>out st. translate_lines identity_provider m r b ls out st
       = (Inr (out @ ls), st\<lparr>sent := sent st @ filter (\<lambda>l. strip l \<noteq> []) ls\<rparr>)"
    by simp
  from Cons.prems have c: "chunk_text l m = Inr [l]" by (simp add: chunk_text_def)
  show ?case
    by (simp add: ih c retry_translate_identity)
qed

text \<open>
  Claim C1 says that with the identity provider and \<open>preserve_format = true\<close> the result
  is the document itself, for every document and every \<open>maxChars \<ge> 1\<close>. The line
  \<open>"A.  B\n"\<close> with \<open>maxChars = 4\<close> is longer than the limit, so it is segmented: the
  sentence pass drops the two spaces after the full stop and joins with one, and the
  result is \<open>"A. B\n"\<close>.
\<close>

theorem identity_round_trip_counterexample:
  "fst (translate_text identity_provider (str_of ''A.  B'' @ [10]) True 4 3 1 st0)
     \<noteq> Inr (str_of ''A.  B'' @ [10])"
  by (simp add: translate_text_def splitlines_def str_of_def is_linebreak_def strip_def
        isspace_def chunk_text_def is_terminator_def with_space_def endswith_nl_def
        retry_translate_identity)

text \<open>
  Claim C1 as amended. For every document whose lines all have at most \<open>maxChars\<close> code
  points, so that no line is segmented, \<open>translate_text\<close> with the identity provider and
  \<open>preserve_format = true\<close> returns exactly the document; the provider receives the
  non-blank lines, each whole, in order.
\<close>

theorem identity_round_trip:
  "\<forall>l \<in> set (splitlines d). int (length l) \<le> maxChars \<Longrightarrow>
     translate_text identity_provider d True maxChars r b st
       = (Inr d, st\<lparr>sent := sent st @ filter (\<lambda>l. strip l \<noteq> []) (splitlines d)\<rparr>)"
proof (cases "d = []")
  case True
  then show ?thesis by (simp add: translate_text_def splitlines_def)
next
  case False
  assume "\<forall>l \<in> set (splitlines d). int (length l) \<le> maxChars"
  from translate_lines_identity [OF this, of r b "[]" st] False show ?thesis
    by (simp add: translate_text_def concat_splitlines)
qed

theorem identity_round_trip_witness:
  "translate_text identity_provider (str_of ''A.  B'' @ [10, 10] @ str_of ''C'') True 6 3 1 st0
     = (Inr (str_of ''A.  B'' @ [10, 10] @ str_of ''C''),
        st0\<lparr>sent := [str_of ''A.  B'' @ [10], str_of ''C'']\<rparr>)"
proof -
  have ls: "splitlines (str_of ''A.  B'' @ [10, 10] @ str_of ''C'')
      = [str_of ''A.  B'' @ [10], [10], str_of ''C'']"
    by (simp add: splitlines_def str_of_def is_linebreak_def)
  have h: "\<forall>l \<in> set (splitlines (str_of ''A.  B'' @ [10, 10] @ str_of ''C'')). int (length l) \<le> 6"
    unfolding ls by (simp add: str_of_def)
  have f: "filter (\<lambda>l. strip l \<noteq> []) (splitlines (str_of ''A.  B'' @ [10, 10] @ str_of ''C''))
      = [str_of ''A.  B'' @ [10], str_of ''C'']"
    unfolding ls by (simp add: str_of_def strip_def isspace_def)
  show ?thesis using identity_round_trip [OF h, of 3 1 st0] h f by (simp add: st0_def)
qed

subsection \<open>Without format preservation\<close>

text \<open>
  Claim C3 says that with \<open>preserve_format = false\<close> the document is segmented and the
  chunk translations are concatenated. For \<open>"ab cd"\<close> with \<open>maxChars = 3\<close> and the
  identity provider the code sends the whole text in one call and returns it, while the
  segmented translation sends three chunks and returns \<open>"ab cd  "\<close>.
\<close>

theorem non_preserving_counterexample:
  "translate_text identity_provider (str_of ''ab cd'') False 3 3 1 st0
     \<noteq> spec_translate_unit identity_provider (str_of ''ab cd'') 3 3 1 st0"
  by (simp add: translate_text_def spec_translate_unit_def str_of_def chunk_text_def
        isspace_def is_terminator_def with_space_def endswith_nl_def Let_def
        retry_translate_identity st0_def)

text \<open>
  Claim C3 as amended. For every non-empty text and every configuration with
  \<open>preserve_format = false\<close>, \<open>translate_text\<close> is the retrying invoker applied once to
  the whole text, without segmentation; this is the concatenation of the translated
  chunks of the segmented text whenever the text has at most \<open>maxChars\<close> code points.
\<close>

theorem non_preserving_translate:
  "text \<noteq> [] \<Longrightarrow>
     translate_text P text False maxChars r b st = retry_translate P text r b st \<and>
     (int (length text) \<le> maxChars \<longrightarrow>
        translate_text P text False maxChars r b st = spec_translate_unit P text maxChars r b st)"
  by (cases "retry_translate P text r b st")
     (auto simp: translate_text_def spec_translate_unit_def chunk_text_def split: sum.splits)

theorem non_preserving_translate_witness:
  "str_of ''ab cd'' \<noteq> [] \<and>
   translate_text identity_provider (str_of ''ab cd'') False 5 3 1 st0
     = retry_translate identity_provider (str_of ''ab cd'') 3 1 st0 \<and>
   int (length (str_of ''ab cd'')) \<le> 5 \<and>
   translate_text identity_provider (str_of ''ab cd'') False 5 3 1 st0
     = spec_translate_unit identity_provider (str_of ''ab cd'') 5 3 1 st0"
proof -
  have h: "str_of ''ab cd'' \<noteq> []" by (simp add: str_of_def)
  have len: "int (length (str_of ''ab cd'')) \<le> 5" by (simp add: str_of_def)
  from non_preserving_translate [OF h, of identity_provider 5 3 1 st0] h len show ?thesis
    by blast
qed

subsection \<open>Configurations outside the documented ranges\<close>




















section \<open>Properties of the batch endpoint\<close>

lemma batch_loop_length:
  "batch_loop E req its outputs st = (Inr res, st') \<Longrightarrow> length res = length outputs + length its"
proof (induction its arbitrary: outputs st)
  case Nil
  then show ?case by auto
next
  case (Cons it its)
  from Cons.prems obtain out st1 where
    "batch_loop E req its (outputs @ [out]) st1 = (Inr res, st')"
    by (auto split: sum.splits prod.splits)
  from Cons.IH [OF this] show ?case by simp
qed

lemma batch_loop_outputs:
  "batch_loop E req its outputs st =
     (case batch_loop E req its [] st of
        (Inl e, s) \<Rightarrow> (Inl e, s)
      | (Inr res, s) \<Rightarrow> (Inr (outputs @ res), s))"
proof (induction its arbitrary: outputs st)
  case Nil
  then show ?case by simp
next
  case (Cons it its)
  show ?case
  proof (cases "translate_item E req it st")
    case (Pair res st1)
    show ?thesis
    proof (cases res)
      case (Inl e)
      with Pair show ?thesis by simp
    next
      case (Inr out)
      show ?thesis
        using Pair Inr Cons.IH [of "outputs @ [out]" st1] Cons.IH [of "[out]" st1]
        by (simp split: prod.splits sum.splits)
    qed
  qed
qed

lemma batch_loop_append:
  "batch_loop E req (xs @ ys) outputs st =
     (case batch_loop E req xs outputs st of
        (Inl e, s) \<Rightarrow> (Inl e, s)
      | (Inr res, s) \<Rightarrow> batch_loop E req ys res s)"
  by (induction xs arbitrary: outputs st) (simp_all split: sum.splits prod.splits)

lemma demo_first_item:
  "translate_item demo_env demo_request demo_item_vi st0
   = (Inl (Exn ''RequestError'' (str_of ''service unavailable'')),
      \<lparr>sent = [str_of ''hello''], slept = [], catalog_reads = 1\<rparr>)"
proof -
  have s: "normalize_lang demo_env (str_of ''auto'') st0 = (Inr (str_of ''auto''), st0)"
    by (simp add: normalize_lang_def demo_env_def ascii_lower_def str_of_def)
  have t: "normalize_lang demo_env (str_of ''vi'') st0
      = (Inr (str_of ''vi''), st0\<lparr>catalog_reads := Suc 0\<rparr>)"
    by (simp add: normalize_lang_def demo_env_def ascii_lower_def str_of_def Let_def
          dict_get_def replace_underscore_def strip_def isspace_def st0_def)
  have g: "google demo_env (str_of ''auto'') (str_of ''vi'')
      = Inr (raising_provider (Exn ''RequestError'' (str_of ''service unavailable'')))"
    by (simp add: demo_env_def)
  have i: "init demo_env (str_of ''auto'') (str_of ''vi'') st0
      = (Inr \<lparr>source = str_of ''auto'', target = str_of ''vi'',
               translator = raising_provider (Exn ''RequestError'' (str_of ''service unavailable''))\<rparr>,
         st0\<lparr>catalog_reads := Suc 0\<rparr>)"
    by (simp add: init_def s t g)
  have ls: "splitlines (str_of ''hello'') = [str_of ''hello'']"
    by (simp add: splitlines_def str_of_def is_linebreak_def)
  have nb: "strip (str_of ''hello'') \<noteq> []"
    by (simp add: strip_def str_of_def isspace_def)
  have ct: "chunk_text (str_of ''hello'') 4500 = Inr [str_of ''hello'']"
    by (simp add: chunk_text_def str_of_def)
  have rt: "retry_translate (raising_provider (Exn ''RequestError'' (str_of ''service unavailable'')))
        (str_of ''hello'') 0 1 (st0\<lparr>catalog_reads := Suc 0\<rparr>)
      = (Inl (Exn ''RequestError'' (str_of ''service unavailable'')),
         \<lparr>sent = [str_of ''hello''], slept = [], catalog_reads = Suc 0\<rparr>)"
    unfolding retry_translate_def
    by (subst retry_loop.simps) (simp add: call_provider_def raising_provider_def st0_def)
  have ne: "str_of ''hello'' \<noteq> []" by (simp add: str_of_def)
  have tt: "translate_text (raising_provider (Exn ''RequestError'' (str_of ''service unavailable'')))
        (str_of ''hello'') True 4500 0 1 (st0\<lparr>catalog_reads := Suc 0\<rparr>)
      = (Inl (Exn ''RequestError'' (str_of ''service unavailable'')),
         \<lparr>sent = [str_of ''hello''], slept = [], catalog_reads = Suc 0\<rparr>)"
    using ne nb by (simp add: translate_text_def ls ct rt)
  show ?thesis
    by (simp add: translate_item_def demo_item_vi_def i demo_request_def tt)
qed

lemma demo_second_item:
  "translate_item demo_env demo_request_en demo_item_en st0
   = (Inr (str_of ''xin chao''),
      \<lparr>sent = [str_of ''xin chao''], slept = [], catalog_reads = 2\<rparr>)"
proof -
  have s: "normalize_lang demo_env (str_of ''Vietnamese'') st0
      = (Inr (str_of ''vi''), st0\<lparr>catalog_reads := Suc 0\<rparr>)"
    by (simp add: normalize_lang_def demo_env_def ascii_lower_def str_of_def Let_def
          dict_get_def replace_underscore_def strip_def isspace_def st0_def)
  have t: "normalize_lang demo_env (str_of ''en'') (st0\<lparr>catalog_reads := Suc 0\<rparr>)
      = (Inr (str_of ''en''), st0\<lparr>catalog_reads := Suc (Suc 0)\<rparr>)"
    by (simp add: normalize_lang_def demo_env_def ascii_lower_def str_of_def Let_def
          dict_get_def replace_underscore_def strip_def isspace_def st0_def)
  have g: "google demo_env (str_of ''vi'') (str_of ''en'') = Inr identity_provider"
    by (simp add: demo_env_def str_of_def)
  have i: "init demo_env (str_of ''Vietnamese'') (str_of ''en'') st0
      = (Inr \<lparr>source = str_of ''vi'', target = str_of ''en'', translator = identity_provider\<rparr>,
         st0\<lparr>catalog_reads := Suc (Suc 0)\<rparr>)"
    by (simp add: init_def s t g)
  have ls: "splitlines (str_of ''xin chao'') = [str_of ''xin chao'']"
    by (simp add: splitlines_def str_of_def is_linebreak_def)
  have len: "\<forall>l \<in> set (splitlines (str_of ''xin chao'')). int (length l) \<le> 4500"
    unfolding ls by (simp add: str_of_def)
  have f: "filter (\<lambda>l. strip l \<noteq> []) (splitlines (str_of ''xin chao'')) = [str_of ''xin chao'']"
    unfolding ls by (simp add: strip_def str_of_def isspace_def)
  have ne: "str_of ''xin chao'' \<noteq> []" by (simp add: str_of_def)
  have tl: "translate_lines identity_provider 4500 0 1 (splitlines (str_of ''xin chao'')) []
        (st0\<lparr>catalog_reads := Suc (Suc 0)\<rparr>)
      = (Inr (splitlines (str_of ''xin chao'')),
         \<lparr>sent = [str_of ''xin chao''], slept = [], catalog_reads = Suc (Suc 0)\<rparr>)"
    using translate_lines_identity [OF len, of 0 1 "[]" "st0\<lparr>catalog_reads := Suc (Suc 0)\<rparr>"] f
    by (simp add: st0_def)
  have tt: "translate_text identity_provider (str_of ''xin chao'') True 4500 0 1
        (st0\<lparr>catalog_reads := Suc (Suc 0)\<rparr>)
      = (Inr (str_of ''xin chao''),
         \<lparr>sent = [str_of ''xin chao''], slept = [], catalog_reads = Suc (Suc 0)\<rparr>)"
    using ne by (simp add: translate_text_def tl concat_splitlines)
  show ?thesis
    by (simp add: translate_item_def demo_item_en_def i demo_request_en_def tt eval_nat_numeral)
qed

text \<open>
  Claim C9 says that the batch operation returns one result per request and that the
  failure of one item does not block the other items. In the batch of two items whose
  first item needs the provider that is down, the second item is independent of the first
  and would succeed, yet the answer is a single HTTP 500 error and the text of the second
  item is never sent.
\<close>

theorem translate_batch_counterexample:
  "translate_batch demo_env demo_request st0
     = (Inl (HTTPException 500 (str_of ''service unavailable'')),
        \<lparr>sent = [str_of ''hello''], slept = [], catalog_reads = 1\<rparr>)"
proof -
  have its: "items demo_request = [demo_item_vi, demo_item_en]"
    by (simp add: demo_request_def)
  show ?thesis
    unfolding translate_batch_def its
    by (simp add: demo_first_item is_Exception_def base_exception_only_def)
qed

text \<open>
  Claim C9 as amended. For every ordered list of batch items the batch operation is all
  or nothing. When it succeeds it returns one result per request, in input order: the
  output of an item stands after the outputs of the items before it, which are as many as
  those items, and before the outputs of the items after it. When an item fails, the items
  before it having succeeded, the whole batch fails, no result is returned and the items
  after it are not attempted: the final state is the state in which the failing item
  ended. The failure is one HTTP 500 error whose detail is the message of that item's
  exception; an exception that is not derived from \<open>Exception\<close>, which the handler of
  the endpoint does not catch, leaves the endpoint as it is.
\<close>

theorem translate_batch_all_or_nothing:
  "(translate_batch E req st = (Inr outputs, st') \<longrightarrow> length outputs = length (items req)) \<and>
   (items req = pre @ it # post \<and> batch_loop E req pre [] st = (Inr out1, s1) \<longrightarrow>
      length out1 = length pre \<and>
      (\<forall>e s2. translate_item E req it s1 = (Inl e, s2) \<longrightarrow>
         translate_batch E req st =
           (Inl (if is_Exception e then HTTPException 500 (exn_str e) else Uncaught e), s2)) \<and>
      (\<forall>out s2. translate_item E req it s1 = (Inr out, s2) \<longrightarrow>
         translate_batch E req st =
           (case batch_loop E req post [] s2 of
              (Inl e, s3) \<Rightarrow>
                (Inl (if is_Exception e then HTTPException 500 (exn_str e) else Uncaught e), s3)
            | (Inr out2, s3) \<Rightarrow> (Inr (out1 @ out # out2), s3))))"
proof (intro conjI impI allI)
  assume a: "translate_batch E req st = (Inr outputs, st')"
  then have "batch_loop E req (items req) [] st = (Inr outputs, st')"
    by (auto simp: translate_batch_def split: prod.splits sum.splits)
  from batch_loop_length [OF this] show "length outputs = length (items req)" by simp
next
  assume a: "items req = pre @ it # post \<and> batch_loop E req pre [] st = (Inr out1, s1)"
  from batch_loop_length [of E req pre "[]" st out1 s1] a show "length out1 = length pre" by simp
next
  fix e s2
  assume a: "items req = pre @ it # post \<and> batch_loop E req pre [] st = (Inr out1, s1)"
    and f: "translate_item E req it s1 = (Inl e, s2)"
  have "batch_loop E req (pre @ it # post) [] st = (Inl e, s2)"
    using a f by (simp add: batch_loop_append)
  then show "translate_batch E req st =
      (Inl (if is_Exception e then HTTPException 500 (exn_str e) else Uncaught e), s2)"
    using a by (simp add: translate_batch_def)
next
  fix out s2
  assume a: "items req = pre @ it # post \<and> batch_loop E req pre [] st = (Inr out1, s1)"
    and f: "translate_item E req it s1 = (Inr out, s2)"
  have "batch_loop E req (pre @ it # post) [] st = batch_loop E req post (out1 @ [out]) s2"
    using a f by (simp add: batch_loop_append)
  also have "\<dots> = (case batch_loop E req post [] s2 of
        (Inl e, s) \<Rightarrow> (Inl e, s)
      | (Inr res, s) \<Rightarrow> (Inr ((out1 @ [out]) @ res), s))"
    by (rule batch_loop_outputs)
  finally show "translate_batch E req st =
           (case batch_loop E req post [] s2 of
              (Inl e, s3) \<Rightarrow>
                (Inl (if is_Exception e then HTTPException 500 (exn_str e) else Uncaught e), s3)
            | (Inr out2, s3) \<Rightarrow> (Inr (out1 @ out # out2), s3))"
    using a by (simp add: translate_batch_def split: prod.splits sum.splits)
qed

theorem translate_batch_all_or_nothing_witness:
  "translate_batch demo_env demo_request_en st0
     = (Inr [str_of ''xin chao''],
        \<lparr>sent = [str_of ''xin chao''], slept = [], catalog_reads = 2\<rparr>) \<and>
   length [str_of ''xin chao''] = length (items demo_request_en) \<and>
   items demo_request = [] @ demo_item_vi # [demo_item_en] \<and>
   batch_loop demo_env demo_request [] [] st0 = (Inr [], st0) \<and>
   translate_item demo_env demo_request demo_item_vi st0
     = (Inl (Exn ''RequestError'' (str_of ''service unavailable'')),
        \<lparr>sent = [str_of ''hello''], slept = [], catalog_reads = 1\<rparr>) \<and>
   translate_batch demo_env demo_request st0
     = (Inl (HTTPException 500 (exn_str (Exn ''RequestError'' (str_of ''service unavailable'')))),
        \<lparr>sent = [str_of ''hello''], slept = [], catalog_reads = 1\<rparr>)"
proof -
  let ?s2 = "\<lparr>sent = [str_of ''xin chao''], slept = [], catalog_reads = 2\<rparr>"
  let ?s1 = "\<lparr>sent = [str_of ''hello''], slept = [], catalog_reads = 1\<rparr>"
  let ?e = "Exn ''RequestError'' (str_of ''service unavailable'')"
  have ex: "is_Exception ?e" by (simp add: is_Exception_def base_exception_only_def)
  have i1: "items demo_request_en = [] @ demo_item_en # []"
    by (simp add: demo_request_en_def)
  have b1: "batch_loop demo_env demo_request_en [] [] st0 = (Inr [], st0)" by simp
  have ok: "translate_batch demo_env demo_request_en st0 = (Inr [str_of ''xin chao''], ?s2)"
    using translate_batch_all_or_nothing
      [of demo_env demo_request_en st0 "[]" st0 "[]" demo_item_en "[]" "[]" st0]
      i1 b1 demo_second_item
    by simp
  have len: "length [str_of ''xin chao''] = length (items demo_request_en)"
    using translate_batch_all_or_nothing
      [of demo_env demo_request_en st0 "[str_of ''xin chao'']" ?s2 "[]" demo_item_en "[]" "[]" st0]
      ok
    by blast
  have i2: "items demo_request = [] @ demo_item_vi # [demo_item_en]"
    by (simp add: demo_request_def)
  have b2: "batch_loop demo_env demo_request [] [] st0 = (Inr [], st0)" by simp
  have "translate_batch demo_env demo_request st0
      = (Inl (if is_Exception ?e then HTTPException 500 (exn_str ?e) else Uncaught ?e), ?s1)"
    using translate_batch_all_or_nothing
      [of demo_env demo_request st0 "[]" st0 "[]" demo_item_vi "[demo_item_en]" "[]" st0]
      i2 b2 demo_first_item
    by blast
  then have ko: "translate_batch demo_env demo_request st0
      = (Inl (HTTPException 500 (exn_str ?e)), ?s1)"
    using ex by simp
  show ?thesis using ok len i2 b2 demo_first_item ko by blast
qed

section \<open>Properties of the language normalisation\<close>

text \<open>
  Claim C10. For every input \<open>lang\<close> that is empty or whose lower-cased form is
  \<open>"auto"\<close>, \<open>_normalize_lang\<close> returns exactly \<open>"auto"\<close>, without raising, and leaves
  the state as it was, in every environment: the language catalogue is not read. Hence
  the constructor, given such a source, passes \<open>"auto"\<close> as the source to the provider's
  constructor and stores it, and given such a source and such a target it passes
  \<open>"auto"\<close> for both; the object exists whenever the provider's constructor accepts the
  pair.
\<close>

theorem normalize_lang_auto:
  "lang = [] \<or> lower E lang = str_of ''auto'' \<Longrightarrow>
     normalize_lang E lang st = (Inr (str_of ''auto''), st) \<and>
     init E lang tgt st =
       (case normalize_lang E tgt st of
          (Inl e, st2) \<Rightarrow> (Inl e, st2)
        | (Inr norm_target, st2) \<Rightarrow>
            (case google E (str_of ''auto'') norm_target of
               Inl e \<Rightarrow> (Inl e, st2)
             | Inr p \<Rightarrow>
                 (Inr \<lparr>source = str_of ''auto'', target = norm_target, translator = p\<rparr>, st2))) \<and>
     (tgt = [] \<or> lower E tgt = str_of ''auto'' \<longrightarrow>
        init E lang tgt st =
          (case google E (str_of ''auto'') (str_of ''auto'') of
             Inl e \<Rightarrow> (Inl e, st)
           | Inr p \<Rightarrow>
               (Inr \<lparr>source = str_of ''auto'', target = str_of ''auto'', translator = p\<rparr>, st)))"
proof -
  have auto_input: "normalize_lang E l s = (Inr (str_of ''auto''), s)"
    if "l = [] \<or> lower E l = str_of ''auto''" for l s
    using that unfolding normalize_lang_def by (cases "l = []") simp_all
  assume h: "lang = [] \<or> lower E lang = str_of ''auto''"
  have n: "normalize_lang E lang st = (Inr (str_of ''auto''), st)"
    by (rule auto_input [OF h])
  have i: "init E lang tgt st =
       (case normalize_lang E tgt st of
          (Inl e, st2) \<Rightarrow> (Inl e, st2)
        | (Inr norm_target, st2) \<Rightarrow>
            (case google E (str_of ''auto'') norm_target of
               Inl e \<Rightarrow> (Inl e, st2)
             | Inr p \<Rightarrow>
                 (Inr \<lparr>source = str_of ''auto'', target = norm_target, translator = p\<rparr>, st2)))"
    unfolding init_def n by simp
  have j: "init E lang tgt st =
          (case google E (str_of ''auto'') (str_of ''auto'') of
             Inl e \<Rightarrow> (Inl e, st)
           | Inr p \<Rightarrow>
               (Inr \<lparr>source = str_of ''auto'', target = str_of ''auto'', translator = p\<rparr>, st))"
    if "tgt = [] \<or> lower E tgt = str_of ''auto''"
    unfolding i auto_input [OF that] by simp
  show ?thesis using n i j by blast
qed

theorem normalize_lang_auto_witness:
  "lower demo_env (str_of ''AuTo'') = str_of ''auto'' \<and>
   normalize_lang demo_env (str_of ''AuTo'') st0 = (Inr (str_of ''auto''), st0) \<and>
   normalize_lang demo_env [] st0 = (Inr (str_of ''auto''), st0) \<and>
   init demo_env [] [] st0
     = (Inr \<lparr>source = str_of ''auto'', target = str_of ''auto'', translator = identity_provider\<rparr>,
        st0)"
proof -
  have l: "lower demo_env (str_of ''AuTo'') = str_of ''auto''"
    by (simp add: demo_env_def ascii_lower_def str_of_def)
  then have h1: "str_of ''AuTo'' = [] \<or> lower demo_env (str_of ''AuTo'') = str_of ''auto''" ..
  have h2: "([]::str) = [] \<or> lower demo_env [] = str_of ''auto''" by simp
  have g: "google demo_env (str_of ''auto'') (str_of ''auto'') = Inr identity_provider"
    by (simp add: demo_env_def str_of_def)
  have a: "normalize_lang demo_env (str_of ''AuTo'') st0 = (Inr (str_of ''auto''), st0)"
    using normalize_lang_auto [OF h1, of st0 "[]"] by blast
  have b: "normalize_lang demo_env [] st0 = (Inr (str_of ''auto''), st0)"
    using normalize_lang_auto [OF h2, of st0 "[]"] by blast
  have c: "init demo_env [] [] st0
     = (Inr \<lparr>source = str_of ''auto'', target = str_of ''auto'', translator = identity_provider\<rparr>,
        st0)"
    using normalize_lang_auto [OF h2, of st0 "[]"] g by simp
  show ?thesis using l a b c by blast
qed

end
